theory Spec2Isabelle
  imports Main "HOL-Library.AList" "HOL-Library.Char_ord" "HOL-Library.List_Lexorder"
begin

section \<open>Leaf taxa by first observation date: a model of \<open>list_leaf_taxa_by_date.py\<close>\<close>

text \<open>
  The script loads the cached observations of a user, fetches the newer ones page by
  page, reduces the observed taxa to the leaves of the observed taxonomy, collapses
  infra-specific leaves into their species and writes the leaves ordered by the date of
  their first observation.

  Conventions of the model:
  \<^item> a Python \<open>str\<close> is a \<open>string\<close>; characters are 8-bit, and \<open>upper\<close> and \<open>lower\<close>
    change the ASCII letters only. Comparison of strings is lexicographic on the
    character codes, a proper prefix being smaller, as in Python;
  \<^item> a value that may be \<open>None\<close> is an \<open>option\<close>;
  \<^item> an exception is a value \<open>Inl e\<close> of a sum type;
  \<^item> a \<open>dict\<close> whose iteration order is used is an association list with the update of
    \<^const>\<open>AList.update\<close> (an existing key keeps its place, a new key goes to the end),
    and a \<open>dict\<close> that is only read and written by key is a map.
\<close>

subsection \<open>Exceptions\<close>

datatype error = KeyError | IndexError | AttributeError | ValueError

subsection \<open>Strings\<close>

text \<open>The characters that \<open>str.split()\<close> without argument treats as separators.\<close>

definition is_space :: "char \<Rightarrow> bool" where
  "is_space c \<longleftrightarrow> c \<in> set [CHR 0x09, CHR 0x0A, CHR 0x0B, CHR 0x0C, CHR 0x0D,
      CHR 0x1C, CHR 0x1D, CHR 0x1E, CHR 0x1F, CHR '' '', CHR 0x85, CHR 0xA0]"

text \<open>
  \<open>str.upper\<close> and \<open>str.lower\<close> on one character of ASCII text. Outside ASCII the
  Python functions also change letters, and \<open>upper\<close> may yield more than one character;
  there the model, which leaves such a character as it is, gives the shape of the result
  and not its letters.
\<close>

definition upper :: "char \<Rightarrow> char" where
  "upper c = (if CHR ''a'' \<le> c \<and> c \<le> CHR ''z'' then char_of (of_char c - (32::nat)) else c)"

definition lower :: "char \<Rightarrow> char" where
  "lower c = (if CHR ''A'' \<le> c \<and> c \<le> CHR ''Z'' then char_of (of_char c + (32::nat)) else c)"

text \<open>
  \<open>text.split()\<close>: the maximal runs of characters that are not separators, in order.
  The first argument is the run read so far.
\<close>

fun split_from :: "string \<Rightarrow> string \<Rightarrow> string list" where
  "split_from word [] = (if word = [] then [] else [word])"
| "split_from word (c # cs) =
     (if is_space c then (if word = [] then split_from [] cs else word # split_from [] cs)
      else split_from (word @ [c]) cs)"

definition py_split :: "string \<Rightarrow> string list" where
  "py_split text = split_from [] text"

text \<open>\<open>sep.join(words)\<close>.\<close>

fun join :: "string \<Rightarrow> string list \<Rightarrow> string" where
  "join sep [] = []"
| "join sep [w] = w"
| "join sep (w # v # ws) = w @ sep @ join sep (v # ws)"

text \<open>\<open>str(n)\<close> for an integer.\<close>

fun str_nat :: "nat \<Rightarrow> string" where
  "str_nat n = (if n < 10 then [char_of (48 + n)]
                else str_nat (n div 10) @ [char_of (48 + n mod 10)])"

declare str_nat.simps [simp del]

definition str_int :: "int \<Rightarrow> string" where
  "str_int i = (if i < 0 then CHR ''-'' # str_nat (nat (- i)) else str_nat (nat i))"

text \<open>
  A list comprehension whose elements may raise: the elements are evaluated from left to
  right and the first exception ends the evaluation.
\<close>

fun collect :: "(error + 'a) list \<Rightarrow> error + 'a list" where
  "collect [] = Inr []"
| "collect (x # xs) =
     (case x of
        Inl e \<Rightarrow> Inl e
      | Inr v \<Rightarrow> (case collect xs of Inl e \<Rightarrow> Inl e | Inr vs \<Rightarrow> Inr (v # vs)))"

subsection \<open>\<open>title_case\<close>\<close>

text \<open>
  \<open>word[0].upper() + word[1:]\<close>: the index \<open>0\<close> raises \<open>IndexError\<close> on the empty
  string, the slice never raises.
\<close>

definition capitalize :: "string \<Rightarrow> error + string" where
  "capitalize word = (case word of [] \<Rightarrow> Inl IndexError | c # cs \<Rightarrow> Inr (upper c # cs))"

text \<open>
  \<open>title_case(text)\<close>. The callers pass fields of a taxon that may be \<open>None\<close>, on which
  \<open>text.split\<close> raises \<open>AttributeError\<close>.
\<close>

definition title_case :: "string option \<Rightarrow> error + string" where
  "title_case text =
     (case text of
        None \<Rightarrow> Inl AttributeError
      | Some s \<Rightarrow>
          (case collect (map capitalize (py_split s)) of
             Inl e \<Rightarrow> Inl e
           | Inr ws \<Rightarrow> Inr (join '' '' ws)))"

definition UNKNOWN :: string where
  "UNKNOWN = ''<Unknown>''"

text \<open>\<open>title_case(text) or UNKNOWN\<close>, as the report renders the two names of a taxon.\<close>

definition title_case_or_unknown :: "string option \<Rightarrow> error + string" where
  "title_case_or_unknown text =
     (case title_case text of
        Inl e \<Rightarrow> Inl e
      | Inr s \<Rightarrow> Inr (if s = [] then UNKNOWN else s))"

subsection \<open>Observations and taxa\<close>

text \<open>
  The records of the remote source, as the script reads them. A field read with
  \<open>.get(key)\<close> is an \<open>option\<close>: \<open>None\<close> stands for a missing key and for a JSON \<open>null\<close>
  alike. \<open>preferred_common_name\<close> is read with \<open>.get(key, "")\<close>, which tells the two
  apart: the outer \<open>None\<close> is the missing key, \<open>Some None\<close> is a \<open>null\<close>. The \<open>taxon\<close>
  of an observation is \<open>None\<close> when it is missing, \<open>null\<close> or empty, the cases the script
  skips. The identifiers, read with \<open>["id"]\<close>, are taken to be present.
\<close>

record taxon =
  t_id :: int
  t_rank :: "string option"
  t_ancestor_ids :: "int list option"
  t_name :: "string option"
  t_preferred_common_name :: "string option option"

record observation =
  o_id :: int
  o_observed_on :: "string option"
  o_taxon :: "taxon option"

text \<open>The entry of \<open>taxon_id_to_info\<close>.\<close>

record taxon_info =
  i_id :: int
  i_rank :: "string option"
  i_ancestor_ids :: "int list"
  i_name :: "string option"
  i_common_name :: "string option"

type_synonym infos = "(int \<times> taxon_info) list"
type_synonym dates = "int \<rightharpoonup> string"

definition INFRARANKS :: "string set" where
  "INFRARANKS = set [''subspecies'', ''variety'', ''form'', ''infraspecies'',
     ''subvariety'', ''subform'', ''cultivar'', ''race'']"

definition SENTINEL :: string where
  "SENTINEL = ''9999-99-99''"

text \<open>\<open>d.get(key, default)\<close>.\<close>

definition dict_get :: "('k \<rightharpoonup> 'v) \<Rightarrow> 'k \<Rightarrow> 'v \<Rightarrow> 'v" where
  "dict_get d key dflt = (case d key of None \<Rightarrow> dflt | Some v \<Rightarrow> v)"

subsection \<open>The taxon map and the first dates (lines 73 to 97)\<close>

text \<open>
  One turn of the loop over the observations. An observation without taxon changes
  nothing. \<open>if obs_date:\<close> is false for \<open>None\<close> and for the empty string.
\<close>

definition record_observation :: "observation \<Rightarrow> infos \<times> dates \<Rightarrow> infos \<times> dates" where
  "record_observation obs st =
     (case o_taxon obs of
        None \<Rightarrow> st
      | Some taxon \<Rightarrow>
          (let taxon_id = t_id taxon;
               ancestors = filter (\<lambda>ancestor_id. ancestor_id \<noteq> taxon_id)
                             (case t_ancestor_ids taxon of None \<Rightarrow> [] | Some as \<Rightarrow> as);
               info = \<lparr>i_id = taxon_id, i_rank = t_rank taxon, i_ancestor_ids = ancestors,
                       i_name = t_name taxon,
                       i_common_name = (case t_preferred_common_name taxon of
                                          None \<Rightarrow> Some [] | Some v \<Rightarrow> v)\<rparr>;
               ds = snd st
           in (AList.update taxon_id info (fst st),
               (case o_observed_on obs of
                  None \<Rightarrow> ds
                | Some obs_date \<Rightarrow>
                    if obs_date = [] then ds
                    else ds(taxon_id \<mapsto>
                           (if ds taxon_id \<noteq> None
                            then min (dict_get ds taxon_id obs_date) obs_date
                            else obs_date))))))"

definition taxon_maps :: "observation list \<Rightarrow> infos \<times> dates" where
  "taxon_maps observations = fold record_observation observations ([], Map.empty)"

subsection \<open>Excluding the ancestors (lines 99 to 108)\<close>

definition ancestor_id_set :: "infos \<Rightarrow> int set" where
  "ancestor_id_set taxon_id_to_info =
     fold (\<lambda>taxon_info ancestor_ids. ancestor_ids \<union> set (i_ancestor_ids taxon_info))
          (map snd taxon_id_to_info) {}"

definition leaf_taxa :: "infos \<Rightarrow> infos" where
  "leaf_taxa taxon_id_to_info =
     filter (\<lambda>(taxon_id, taxon_info). taxon_id \<notin> ancestor_id_set taxon_id_to_info)
            taxon_id_to_info"

subsection \<open>Collapsing the infra-species (lines 110 to 133)\<close>

text \<open>
  The test of the inner loop:
  \<open>ancestor_id in taxon_id_to_info and taxon_id_to_info[ancestor_id]["rank"] == "species"\<close>.
\<close>

definition is_species :: "infos \<Rightarrow> int \<Rightarrow> bool" where
  "is_species taxon_id_to_info ancestor_id =
     (case map_of taxon_id_to_info ancestor_id of
        None \<Rightarrow> False
      | Some info \<Rightarrow> i_rank info = Some ''species'')"

text \<open>
  The inner loop with its \<open>break\<close>: the first identifier of the list that passes the
  test. The caller passes the ancestors reversed.
\<close>

fun find_species :: "infos \<Rightarrow> int list \<Rightarrow> int option" where
  "find_species taxon_id_to_info [] = None"
| "find_species taxon_id_to_info (ancestor_id # rest) =
     (if is_species taxon_id_to_info ancestor_id
      then Some ancestor_id
      else find_species taxon_id_to_info rest)"

text \<open>
  The value of \<open>species_id\<close> for a leaf candidate. \<open>info["rank"] or ""\<close> is the empty
  string for \<open>None\<close>.
\<close>

definition species_id_of :: "infos \<Rightarrow> taxon_info \<Rightarrow> int option" where
  "species_id_of taxon_id_to_info info =
     (let rank = map lower (case i_rank info of None \<Rightarrow> [] | Some r \<Rightarrow> r)
      in if rank \<in> INFRARANKS
         then find_species taxon_id_to_info (rev (i_ancestor_ids info))
         else None)"

text \<open>
  One turn of the loop over the leaf candidates. \<open>if species_id:\<close> is false for \<open>None\<close>
  and for the identifier \<open>0\<close>. The lookup \<open>taxon_id_to_info[species_id]\<close> cannot miss,
  since \<^const>\<open>find_species\<close> returns keys of the taxon map only (lemma
  \<open>find_species_key\<close> below); the model leaves the state as it is there.
\<close>

definition collapse_taxon :: "infos \<Rightarrow> int \<times> taxon_info \<Rightarrow> infos \<times> dates \<Rightarrow> infos \<times> dates" where
  "collapse_taxon taxon_id_to_info item st =
     (let taxon_id = fst item; info = snd item; ds = snd st
      in case species_id_of taxon_id_to_info info of
           None \<Rightarrow> (AList.update taxon_id info (fst st), ds)
         | Some species_id \<Rightarrow>
             if species_id = 0 then (AList.update taxon_id info (fst st), ds)
             else (case map_of taxon_id_to_info species_id of
                     None \<Rightarrow> st
                   | Some parent \<Rightarrow>
                       (let parent_id = i_id parent
                        in (AList.update parent_id parent (fst st),
                            ds(parent_id \<mapsto> min (dict_get ds parent_id SENTINEL)
                                                (dict_get ds taxon_id SENTINEL))))))"

definition collapse :: "infos \<Rightarrow> infos \<Rightarrow> dates \<Rightarrow> infos \<times> dates" where
  "collapse taxon_id_to_info leaf_taxon_id_to_info ds =
     fold (collapse_taxon taxon_id_to_info) leaf_taxon_id_to_info ([], ds)"

text \<open>
  The reducer up to line 135: the final leaf taxa, in the order of the dictionary, and
  the first dates after the collapse.
\<close>

definition reduce :: "observation list \<Rightarrow> infos \<times> dates" where
  "reduce observations =
     (let (taxon_id_to_info, ds) = taxon_maps observations
      in collapse taxon_id_to_info (leaf_taxa taxon_id_to_info) ds)"

definition final_leaf_taxa :: "observation list \<Rightarrow> infos" where
  "final_leaf_taxa observations = fst (reduce observations)"

definition first_observed :: "observation list \<Rightarrow> dates" where
  "first_observed observations = snd (reduce observations)"

subsection \<open>Sorting and the report (lines 136 to 173)\<close>

text \<open>
  \<open>sorted\<close> is stable, and so is \<^const>\<open>sort_key\<close>: the result is the same list.
\<close>

definition sorted_leaf_taxa :: "observation list \<Rightarrow> infos" where
  "sorted_leaf_taxa observations =
     sort_key (\<lambda>taxon_id_info_tuple.
                 dict_get (first_observed observations) (fst taxon_id_info_tuple) SENTINEL)
              (final_leaf_taxa observations)"

definition column_names :: "string list" where
  "column_names = [''Index'', ''Date'', ''Common Name'', ''Scientific Name'', ''Rank'', ''URL'']"

definition taxon_url :: "int \<Rightarrow> string" where
  "taxon_url taxon_id = ''https://www.inaturalist.org/taxa/'' @ str_int taxon_id"

text \<open>
  The row of one leaf taxon (lines 166 to 172), its fields evaluated in the order of the
  source. \<open>taxon_id_to_date_first_observed[taxon_id]\<close> raises \<open>KeyError\<close> for a taxon
  without date.
\<close>

definition report_row :: "dates \<Rightarrow> nat \<Rightarrow> int \<times> taxon_info \<Rightarrow> error + string list" where
  "report_row ds i item =
     (let taxon_id = fst item; info = snd item
      in case ds taxon_id of
           None \<Rightarrow> Inl KeyError
         | Some date \<Rightarrow>
             (case title_case_or_unknown (i_common_name info) of
                Inl e \<Rightarrow> Inl e
              | Inr common_name \<Rightarrow>
                  (case title_case_or_unknown (i_name info) of
                     Inl e \<Rightarrow> Inl e
                   | Inr scientific_name \<Rightarrow>
                       (case title_case (i_rank info) of
                          Inl e \<Rightarrow> Inl e
                        | Inr rank \<Rightarrow>
                            Inr [str_nat i, date, common_name, scientific_name, rank,
                                 taxon_url taxon_id]))))"

text \<open>
  The rows of the report for the observations that \<open>fetch_observations\<close> returned: no
  file (\<open>None\<close>) when there is no leaf taxon, else the header and one row for each leaf
  taxon, numbered from 1. The console table repeats the last rows and is left out.
\<close>

definition leaf_taxa_report :: "observation list \<Rightarrow> error + string list list option" where
  "leaf_taxa_report observations =
     (let tuples = sorted_leaf_taxa observations;
          num_leaf_taxa = length (final_leaf_taxa observations)
      in if num_leaf_taxa = 0 then Inr None
         else (case collect (map (\<lambda>(i, item). report_row (first_observed observations) i item)
                              (zip [1 ..< Suc num_leaf_taxa] tuples)) of
                 Inl e \<Rightarrow> Inl e
               | Inr rows \<Rightarrow> Inr (Some (column_names # rows))))"

subsection \<open>Fetching the observations (lines 204 to 301)\<close>

text \<open>
  What the loop reads of a response: its status code and, for the status 200, the list
  \<open>response.json().get("results", [])\<close>.
\<close>

record response =
  status_code :: nat
  results :: "observation list"

definition PER_PAGE :: nat where
  "PER_PAGE = 200"

text \<open>What the loop leaves behind; \<open>f_requests\<close> lists the pages requested, in order.\<close>

record fetched =
  f_new_observations :: "observation list"
  f_valid_request :: bool
  f_requests :: "nat list"

text \<open>
  The \<open>while True\<close> loop (lines 250 to 279). The remote source is the list of its
  answers, in the order of the requests of one run: each turn of the loop sends one
  request and consumes one answer. The loop retries without bound, so it need not end:
  the result is \<open>None\<close> when the answers run out while the loop is still turning. The
  pauses between the requests and the counter kept for the log are left out.
\<close>

fun fetch_pages :: "response list \<Rightarrow> nat \<Rightarrow> observation list \<Rightarrow> nat list \<Rightarrow> fetched option" where
  "fetch_pages [] page new_observations requests = None"
| "fetch_pages (response # rest) page new_observations requests =
     (if status_code response = 429
      then fetch_pages rest page new_observations (requests @ [page])
      else if status_code response = 422
      then Some \<lparr>f_new_observations = new_observations, f_valid_request = False,
                 f_requests = requests @ [page]\<rparr>
      else if status_code response \<noteq> 200
      then fetch_pages rest page new_observations (requests @ [page])
      else if results response = []
      then Some \<lparr>f_new_observations = new_observations, f_valid_request = True,
                 f_requests = requests @ [page]\<rparr>
      else if length (results response) < PER_PAGE
      then Some \<lparr>f_new_observations = new_observations @ results response,
                 f_valid_request = True, f_requests = requests @ [page]\<rparr>
      else fetch_pages rest (page + 1) (new_observations @ results response)
             (requests @ [page]))"

text \<open>
  The latest date of the cached observations (lines 217 to 223): \<open>None\<close> when no cached
  observation has a date.
\<close>

definition last_date :: "observation list \<Rightarrow> string option" where
  "last_date observations =
     (case concat (map (\<lambda>observation.
                          case o_observed_on observation of
                            None \<Rightarrow> []
                          | Some d \<Rightarrow> if d = [] then [] else [d]) observations) of
        [] \<Rightarrow> None
      | d # ds \<Rightarrow> Some (fold max ds d))"

text \<open>
  The outcome of \<open>fetch_observations\<close>: the list returned, the content of the cache file
  after the run (\<open>None\<close>: there is no file), whether the file was written, the start date
  sent as \<open>d1\<close>, and what the loop left behind.
\<close>

record fetch_result =
  returned :: "observation list"
  cache_after :: "observation list option"
  cache_written :: bool
  start_date :: "string option"
  pages :: fetched

text \<open>
  The start date of the query (lines 238 to 243), when the cache has a last date. The
  day after that date is computed by \<open>datetime\<close>; the model takes that computation as
  the parameter \<open>next_day\<close>, which is \<open>None\<close> where \<open>fromisoformat\<close> raises
  \<open>ValueError\<close>.
\<close>

definition fetch_start_date ::
    "(string \<Rightarrow> string option) \<Rightarrow> observation list \<Rightarrow> error + string option" where
  "fetch_start_date next_day observations =
     (case last_date observations of
        None \<Rightarrow> Inr None
      | Some d \<Rightarrow> (case next_day d of None \<Rightarrow> Inl ValueError | Some d1 \<Rightarrow> Inr (Some d1)))"

text \<open>
  The cache file is given by its parsed content, \<open>None\<close> when there is no file; the
  observations loaded from it (lines 207 to 214) are then none.
\<close>

definition load_cache :: "observation list option \<Rightarrow> observation list" where
  "load_cache cache = (case cache of None \<Rightarrow> [] | Some cached \<Rightarrow> cached)"

text \<open>
  \<open>fetch_observations\<close>. The outer \<open>None\<close> of the result is the loop that has not
  ended.
\<close>

definition fetch_observations ::
    "(string \<Rightarrow> string option) \<Rightarrow> observation list option \<Rightarrow> response list
      \<Rightarrow> (error + fetch_result) option" where
  "fetch_observations next_day cache responses =
     (let observations = load_cache cache
      in case fetch_start_date next_day observations of
           Inl e \<Rightarrow> Some (Inl e)
         | Inr d1 \<Rightarrow>
             (case fetch_pages responses 1 [] [] of
                None \<Rightarrow> None
              | Some f \<Rightarrow>
                  Some (Inr
                    (if f_new_observations f \<noteq> []
                     then (let existing_ids = set (map o_id observations);
                               merged_observations =
                                 observations @
                                 filter (\<lambda>observation. o_id observation \<notin> existing_ids)
                                        (f_new_observations f)
                           in \<lparr>returned = merged_observations,
                               cache_after = Some merged_observations,
                               cache_written = True, start_date = d1, pages = f\<rparr>)
                     else \<lparr>returned = observations, cache_after = cache,
                           cache_written = False, start_date = d1, pages = f\<rparr>))))"

text \<open>The whole command: fetch, then report.\<close>

definition list_leaf_taxa_by_date ::
    "(string \<Rightarrow> string option) \<Rightarrow> observation list option \<Rightarrow> response list
      \<Rightarrow> (error + string list list option) option" where
  "list_leaf_taxa_by_date next_day cache responses =
     (case fetch_observations next_day cache responses of
        None \<Rightarrow> None
      | Some (Inl e) \<Rightarrow> Some (Inl e)
      | Some (Inr r) \<Rightarrow> Some (leaf_taxa_report (returned r)))"

subsection \<open>Writing the cache file (lines 289 to 290)\<close>

text \<open>
  \<open>with open(obs_cache_fp, "w") as file: json.dump(merged_observations, file)\<close> acts on
  the cache file itself: \<open>open\<close> in mode \<open>"w"\<close> creates the file or empties it, and the
  serialised text then reaches the file piece by piece. The content of the file is a
  string, \<open>None\<close> when there is no file; the pieces are a parameter.
\<close>

datatype file_op = Open_w | Write string

fun apply_op :: "file_op \<Rightarrow> string option \<Rightarrow> string option" where
  "apply_op Open_w content = Some []"
| "apply_op (Write chunk) content =
     (case content of None \<Rightarrow> None | Some text \<Rightarrow> Some (text @ chunk))"

definition write_cache :: "string list \<Rightarrow> file_op list" where
  "write_cache chunks = Open_w # map Write chunks"

text \<open>The content of the cache file when the write stops after its first \<open>k\<close> steps.\<close>

definition cache_after_steps :: "nat \<Rightarrow> string list \<Rightarrow> string option \<Rightarrow> string option" where
  "cache_after_steps k chunks content = fold apply_op (take k (write_cache chunks)) content"

subsection \<open>Example inputs\<close>

text \<open>The two observations of the specification's example.\<close>

definition example_observations :: "observation list" where
  "example_observations =
     [\<lparr>o_id = 1, o_observed_on = Some ''2023-01-05'',
       o_taxon = Some \<lparr>t_id = 10, t_rank = Some ''subspecies'',
                        t_ancestor_ids = Some [1, 2, 10], t_name = Some ''Foo bar baz'',
                        t_preferred_common_name = None\<rparr>\<rparr>,
      \<lparr>o_id = 2, o_observed_on = Some ''2023-01-10'',
       o_taxon = Some \<lparr>t_id = 2, t_rank = Some ''species'', t_ancestor_ids = None,
                        t_name = Some ''Foo bar'', t_preferred_common_name = None\<rparr>\<rparr>]"

text \<open>Two species, the first observed without a date.\<close>

definition undated_observations :: "observation list" where
  "undated_observations =
     [\<lparr>o_id = 1, o_observed_on = None,
       o_taxon = Some \<lparr>t_id = 5, t_rank = Some ''species'', t_ancestor_ids = Some [1, 5],
                        t_name = Some ''Foo bar'', t_preferred_common_name = None\<rparr>\<rparr>,
      \<lparr>o_id = 2, o_observed_on = Some ''2023-03-01'',
       o_taxon = Some \<lparr>t_id = 7, t_rank = Some ''species'', t_ancestor_ids = Some [1, 7],
                        t_name = Some ''Baz qux'', t_preferred_common_name = None\<rparr>\<rparr>]"

subsection \<open>The claims on fetching, as they are stated\<close>

text \<open>The records that the answers with status 200 of a list of answers carry.\<close>

definition collected :: "response list \<Rightarrow> observation list" where
  "collected responses = concat (map results (filter (\<lambda>r. status_code r = 200) responses))"

text \<open>
  Claim C3 as stated: a run that an answer 422 has ended returns the cached list, and the
  cache file is neither written nor changed.
\<close>

definition returns_cache_on_422 ::
    "(string \<Rightarrow> string option) \<Rightarrow> observation list option \<Rightarrow> response list \<Rightarrow> bool" where
  "returns_cache_on_422 next_day cache responses =
     (case fetch_observations next_day cache responses of
        Some (Inr r) \<Rightarrow>
          f_valid_request (pages r)
          \<or> (returned r = load_cache cache \<and> cache_after r = cache \<and> \<not> cache_written r)
      | _ \<Rightarrow> True)"

text \<open>
  Claim C8 as stated: a run that finds no new record at the remote source, all the records
  it collected being cached already, returns the cached list and neither writes nor
  changes the cache file.
\<close>

definition unchanged_without_new_records ::
    "(string \<Rightarrow> string option) \<Rightarrow> observation list option \<Rightarrow> response list \<Rightarrow> bool" where
  "unchanged_without_new_records next_day cache responses =
     (case fetch_observations next_day cache responses of
        Some (Inr r) \<Rightarrow>
          (\<exists>ob \<in> set (f_new_observations (pages r)). o_id ob \<notin> set (map o_id (load_cache cache)))
          \<or> (returned r = load_cache cache \<and> cache_after r = cache \<and> \<not> cache_written r)
      | _ \<Rightarrow> True)"

text \<open>Claim C9 as stated: the list returned holds no identifier twice.\<close>

definition merged_ids_distinct ::
    "(string \<Rightarrow> string option) \<Rightarrow> observation list option \<Rightarrow> response list \<Rightarrow> bool" where
  "merged_ids_distinct next_day cache responses =
     (case fetch_observations next_day cache responses of
        Some (Inr r) \<Rightarrow> distinct (map o_id (returned r))
      | _ \<Rightarrow> True)"

text \<open>
  Claim C4 as stated: wherever the write stops, the cache file holds its previous content
  or the new one.
\<close>

definition atomic_replace :: "string option \<Rightarrow> string list \<Rightarrow> bool" where
  "atomic_replace content chunks =
     (\<forall>k \<in> set [0 ..< Suc (length (write_cache chunks))].
        cache_after_steps k chunks content \<in> {content, Some (concat chunks)})"

text \<open>An observation without taxon, and two lists of answers.\<close>

definition obs :: "int \<Rightarrow> string \<Rightarrow> observation" where
  "obs i d = \<lparr>o_id = i, o_observed_on = Some d, o_taxon = None\<rparr>"

text \<open>An observation without date: a cache of such observations sends no start date.\<close>

definition undated_obs :: "int \<Rightarrow> observation" where
  "undated_obs i = \<lparr>o_id = i, o_observed_on = None, o_taxon = None\<rparr>"

definition full_page_then_422 :: "response list" where
  "full_page_then_422 =
     [\<lparr>status_code = 200, results = replicate 200 (obs 1 ''2024-05-01'')\<rparr>,
      \<lparr>status_code = 422, results = []\<rparr>]"

definition retries_then_422 :: "response list" where
  "retries_then_422 =
     [\<lparr>status_code = 500, results = []\<rparr>, \<lparr>status_code = 429, results = []\<rparr>]"

subsection \<open>Notions for the properties of the reducer\<close>

text \<open>
  The species into which the loop collapses a leaf candidate, if it does: the value of
  \<open>species_id\<close> when \<open>if species_id:\<close> holds.
\<close>

definition collapse_target :: "infos \<Rightarrow> taxon_info \<Rightarrow> int option" where
  "collapse_target taxon_id_to_info info =
     (case species_id_of taxon_id_to_info info of
        None \<Rightarrow> None
      | Some species_id \<Rightarrow> if species_id = 0 then None else Some species_id)"

text \<open>The key under which the loop stores a leaf candidate or its species.\<close>

definition out_key :: "infos \<Rightarrow> int \<times> taxon_info \<Rightarrow> int" where
  "out_key taxon_id_to_info item =
     (case collapse_target taxon_id_to_info (snd item) of None \<Rightarrow> fst item | Some s \<Rightarrow> s)"

text \<open>
  The invariant of the taxon map: the keys are pairwise distinct, as in a \<open>dict\<close>, and
  every entry records its own key as its identifier.
\<close>

definition wf_infos :: "infos \<Rightarrow> bool" where
  "wf_infos taxon_id_to_info \<longleftrightarrow>
     distinct (map fst taxon_id_to_info)
     \<and> (\<forall>item \<in> set taxon_id_to_info. i_id (snd item) = fst item)"

text \<open>
  The identifiers of the taxa are positive, as the keys of the remote source are.
\<close>

definition positive_ids :: "observation list \<Rightarrow> bool" where
  "positive_ids observations =
     (\<forall>ob \<in> set observations. case o_taxon ob of None \<Rightarrow> True | Some t \<Rightarrow> 0 < t_id t)"

text \<open>
  Claim C2 as stated: no identifier of the final leaf taxa occurs in the ancestors of
  another observed taxon.
\<close>

definition leaf_not_ancestor :: "observation list \<Rightarrow> bool" where
  "leaf_not_ancestor observations =
     (\<forall>taxon_id \<in> fst ` set (final_leaf_taxa observations).
        \<forall>ob \<in> set observations.
          case o_taxon ob of
            None \<Rightarrow> True
          | Some t \<Rightarrow>
              t_id t = taxon_id
              \<or> taxon_id \<notin> set (case t_ancestor_ids t of None \<Rightarrow> [] | Some as \<Rightarrow> as))"

text \<open>
  The date that an observation contributes to a taxon, the dates observed for a taxon, the
  leaf candidates collapsed into a species, and the dates observed for the species or for
  one of them.
\<close>

definition observation_date :: "observation \<Rightarrow> int \<Rightarrow> string option" where
  "observation_date ob taxon_id =
     (case o_taxon ob of
        None \<Rightarrow> None
      | Some t \<Rightarrow>
          if t_id t \<noteq> taxon_id then None
          else (case o_observed_on ob of
                  None \<Rightarrow> None
                | Some d \<Rightarrow> if d = [] then None else Some d))"

definition observed_dates :: "observation list \<Rightarrow> int \<Rightarrow> string list" where
  "observed_dates observations taxon_id =
     List.map_filter (\<lambda>ob. observation_date ob taxon_id) observations"

definition collapsed_into :: "observation list \<Rightarrow> int \<Rightarrow> int list" where
  "collapsed_into observations species_id =
     map fst (filter (\<lambda>item. collapse_target (fst (taxon_maps observations)) (snd item)
                               = Some species_id)
                     (leaf_taxa (fst (taxon_maps observations))))"

definition collapsed_dates :: "observation list \<Rightarrow> int \<Rightarrow> string list" where
  "collapsed_dates observations species_id =
     observed_dates observations species_id
     @ concat (map (observed_dates observations) (collapsed_into observations species_id))"

text \<open>A subspecies and a variety of one species, and the species itself.\<close>

definition two_infra_observations :: "observation list" where
  "two_infra_observations =
     [\<lparr>o_id = 1, o_observed_on = Some ''2023-02-01'',
       o_taxon = Some \<lparr>t_id = 10, t_rank = Some ''subspecies'',
                        t_ancestor_ids = Some [1, 2, 10], t_name = Some ''Foo bar baz'',
                        t_preferred_common_name = None\<rparr>\<rparr>,
      \<lparr>o_id = 2, o_observed_on = Some ''2023-01-15'',
       o_taxon = Some \<lparr>t_id = 11, t_rank = Some ''Variety'',
                        t_ancestor_ids = Some [1, 2, 11], t_name = Some ''Foo bar qux'',
                        t_preferred_common_name = None\<rparr>\<rparr>,
      \<lparr>o_id = 3, o_observed_on = Some ''2023-03-01'',
       o_taxon = Some \<lparr>t_id = 2, t_rank = Some ''species'',
                        t_ancestor_ids = Some [1, 2], t_name = Some ''Foo bar'',
                        t_preferred_common_name = None\<rparr>\<rparr>]"

section \<open>Properties\<close>

subsection \<open>\<open>title_case\<close> is total on strings\<close>

lemma split_from_nonempty: "w \<in> set (split_from word s) \<Longrightarrow> w \<noteq> []"
  by (induction s arbitrary: word) (auto split: if_splits)

lemma collect_capitalize:
  "\<forall>w \<in> set ws. w \<noteq> [] \<Longrightarrow>
     collect (map capitalize ws) = Inr (map (\<lambda>w. upper (hd w) # tl w) ws)"
  by (induction ws) (auto simp: capitalize_def split: list.splits)

lemma split_from_spaces: "\<forall>c \<in> set s. is_space c \<Longrightarrow> split_from [] s = []"
  by (induction s) auto

text \<open>
  Claim C10. On every string \<open>title_case\<close> returns a value and raises nothing: the
  words that \<open>split\<close> yields are never empty, so the index \<open>word[0]\<close> is in range, and
  the result is the words joined by one space, the first character of each in upper case.
  On the empty string and on a string of separators alone the result is the empty string,
  which the report renders as the marker \<open><Unknown>\<close>.
\<close>

theorem title_case_total:
  "title_case (Some s) = Inr (join '' '' (map (\<lambda>w. upper (hd w) # tl w) (py_split s)))
   \<and> (\<forall>w \<in> set (py_split s). w \<noteq> [])
   \<and> ((\<forall>c \<in> set s. is_space c) \<longrightarrow>
        title_case (Some s) = Inr [] \<and> title_case_or_unknown (Some s) = Inr UNKNOWN)"
proof -
  have ne: "\<forall>w \<in> set (py_split s). w \<noteq> []"
    unfolding py_split_def using split_from_nonempty by blast
  then have tc: "title_case (Some s)
      = Inr (join '' '' (map (\<lambda>w. upper (hd w) # tl w) (py_split s)))"
    by (simp add: title_case_def collect_capitalize)
  have "title_case (Some s) = Inr [] \<and> title_case_or_unknown (Some s) = Inr UNKNOWN"
    if "\<forall>c \<in> set s. is_space c"
  proof -
    from that have "py_split s = []"
      by (simp add: py_split_def split_from_spaces)
    with tc show ?thesis
      by (simp add: title_case_or_unknown_def)
  qed
  with ne tc show ?thesis by blast
qed

theorem title_case_total_witness:
  "list_all is_space '' ''
   \<and> title_case (Some '' '') = Inr []
   \<and> title_case_or_unknown (Some '' '') = Inr UNKNOWN
   \<and> title_case (Some ''foo bar'') = Inr ''Foo Bar''"
proof -
  have sp: "\<forall>c \<in> set '' ''. is_space c"
    by (simp add: is_space_def)
  have "title_case (Some ''foo bar'') = Inr ''Foo Bar''"
    using title_case_total [of "''foo bar''"] by code_simp
  moreover from sp title_case_total [of "'' ''"]
  have "title_case (Some '' '') = Inr [] \<and> title_case_or_unknown (Some '' '') = Inr UNKNOWN"
    by blast
  ultimately show ?thesis using sp
    by (simp add: list_all_iff)
qed

subsection \<open>The example of the specification\<close>

text \<open>
  Claim C5. On the two observations of the example the reducer leaves one leaf entry, the
  species 2; its first date is 2023-01-05, the date of the subspecies collapsed into it,
  and the report renders its scientific name as \<open>Foo Bar\<close>.
\<close>

theorem example_report:
  "map fst (final_leaf_taxa example_observations) = [2]
   \<and> first_observed example_observations 2 = Some ''2023-01-05''
   \<and> leaf_taxa_report example_observations =
       Inr (Some [column_names,
                  [''1'', ''2023-01-05'', ''<Unknown>'', ''Foo Bar'', ''Species'',
                   ''https://www.inaturalist.org/taxa/2'']])"
  unfolding example_observations_def by code_simp

subsection \<open>A leaf taxon without date\<close>

text \<open>
  Claim C1. A leaf taxon none of whose observations has a date is kept as a leaf and sorted
  after the dated ones, since the sort reads the dates with the default \<open>9999-99-99\<close>.
  The row of the report reads the date with \<open>taxon_id_to_date_first_observed[taxon_id]\<close>,
  without default: on the observations below the taxon 5 has no date, it sorts after the
  taxon 7, and the report raises \<open>KeyError\<close> instead of producing its row.
\<close>

theorem undated_leaf_report_raises:
  "map fst (sorted_leaf_taxa undated_observations) = [7, 5]
   \<and> first_observed undated_observations 5 = None
   \<and> leaf_taxa_report undated_observations = Inl KeyError"
  unfolding undated_observations_def by code_simp

subsection \<open>Fetching\<close>

lemma fetch_pages_422:
  "fetch_pages before page new requests = None \<Longrightarrow> status_code r = 422 \<Longrightarrow>
   \<exists>rq. fetch_pages (before @ r # rest) page new requests =
      Some \<lparr>f_new_observations = new @ collected before, f_valid_request = False, f_requests = rq\<rparr>
      \<and> length rq = length requests + Suc (length before)"
proof (induction before arbitrary: page new requests)
  case Nil
  then show ?case by (simp add: collected_def)
next
  case (Cons a before)
  show ?case
    using Cons.prems Cons.IH [of page new "requests @ [page]"]
      Cons.IH [of "page + 1" "new @ results a" "requests @ [page]"]
    by (auto simp: collected_def split: if_splits)
qed

lemma fetch_observations_unfold:
  "fetch_start_date next_day (load_cache cache) = Inr d1 \<Longrightarrow>
   fetch_pages responses 1 [] [] = Some f \<Longrightarrow>
   fetch_observations next_day cache responses =
     Some (Inr (if f_new_observations f \<noteq> []
                then \<lparr>returned = load_cache cache @
                                   filter (\<lambda>observation. o_id observation \<notin> set (map o_id (load_cache cache)))
                                          (f_new_observations f),
                       cache_after = Some (load_cache cache @
                                   filter (\<lambda>observation. o_id observation \<notin> set (map o_id (load_cache cache)))
                                          (f_new_observations f)),
                       cache_written = True, start_date = d1, pages = f\<rparr>
                else \<lparr>returned = load_cache cache, cache_after = cache,
                       cache_written = False, start_date = d1, pages = f\<rparr>))"
  by (simp add: fetch_observations_def load_cache_def load_cache_def Let_def)

lemma fetch_observations_Inr:
  assumes "fetch_observations next_day cache responses = Some (Inr res)"
  obtains d1 f where "fetch_start_date next_day (load_cache cache) = Inr d1"
    and "fetch_pages responses 1 [] [] = Some f"
  using assms
  by (auto simp: fetch_observations_def load_cache_def Let_def split: sum.splits option.splits)

text \<open>
  Claim C3, amended. When the remote source answers a request with the status 422 while
  the loop is still running, the run ends there: that request is the last one, whatever
  the source would have answered next. If the answers before it carried no record, the
  run returns the cached observations and leaves the cache file as it is, unwritten. If
  earlier pages of the run carried records, these are merged with the cached observations,
  written to the cache file and returned, as in a run that ends normally.
\<close>

theorem fetch_aborts_on_422:
  assumes "fetch_pages before 1 [] [] = None"
    and "status_code r = 422"
    and "fetch_start_date next_day (load_cache cache) = Inr d1"
  shows "\<exists>res. fetch_observations next_day cache (before @ r # rest) = Some (Inr res)
           \<and> \<not> f_valid_request (pages res)
           \<and> length (f_requests (pages res)) = Suc (length before)
           \<and> f_new_observations (pages res) = collected before
           \<and> (collected before = [] \<longrightarrow>
                returned res = load_cache cache \<and> cache_after res = cache \<and> \<not> cache_written res)
           \<and> (collected before \<noteq> [] \<longrightarrow>
                returned res = load_cache cache @
                   filter (\<lambda>observation. o_id observation \<notin> set (map o_id (load_cache cache)))
                          (collected before)
                \<and> cache_after res = Some (returned res) \<and> cache_written res)"
proof -
  from fetch_pages_422 [OF assms(1,2), of rest]
  obtain rq where f: "fetch_pages (before @ r # rest) 1 [] [] =
      Some \<lparr>f_new_observations = collected before, f_valid_request = False, f_requests = rq\<rparr>"
    and rq: "length rq = Suc (length before)"
    by auto
  show ?thesis
    using rq by (simp add: fetch_observations_unfold [OF assms(3) f])
qed

theorem fetch_aborts_on_422_witness:
  "fetch_pages retries_then_422 1 [] [] = None
   \<and> status_code \<lparr>status_code = 422, results = []\<rparr> = 422
   \<and> fetch_start_date (\<lambda>d. Some ''2024-05-02'') (load_cache (Some [obs 1 ''2024-05-01'']))
       = Inr (Some ''2024-05-02'')
   \<and> fetch_observations (\<lambda>d. Some ''2024-05-02'') (Some [obs 1 ''2024-05-01''])
        (retries_then_422 @ \<lparr>status_code = 422, results = []\<rparr>
           # [\<lparr>status_code = 200, results = [obs 2 ''2024-05-03'']\<rparr>])
       = Some (Inr \<lparr>returned = [obs 1 ''2024-05-01''],
                     cache_after = Some [obs 1 ''2024-05-01''], cache_written = False,
                     start_date = Some ''2024-05-02'',
                     pages = \<lparr>f_new_observations = [], f_valid_request = False,
                              f_requests = [1, 1, 1]\<rparr>\<rparr>)"
proof -
  have h1: "fetch_pages retries_then_422 1 [] [] = None"
    by (simp add: retries_then_422_def)
  have h2: "status_code \<lparr>status_code = 422, results = []\<rparr> = 422"
    by simp
  have h3: "fetch_start_date (\<lambda>d. Some ''2024-05-02'') (load_cache (Some [obs 1 ''2024-05-01'']))
       = Inr (Some ''2024-05-02'')"
    by (simp add: fetch_start_date_def last_date_def load_cache_def obs_def)
  show ?thesis
    using h1 h2 h3
      fetch_aborts_on_422 [OF h1 h2 h3, of "[\<lparr>status_code = 200, results = [obs 2 ''2024-05-03'']\<rparr>]"]
    by (simp add: fetch_observations_def load_cache_def retries_then_422_def load_cache_def Let_def)
qed

text \<open>
  The claim as stated fails when the answer 422 follows a full page: the 200 records of
  that page are returned and written, although the cache was empty.
\<close>

lemma full_page_then_422_pages:
  "fetch_pages full_page_then_422 1 [] [] =
     Some \<lparr>f_new_observations = replicate 200 (obs 1 ''2024-05-01''),
           f_valid_request = False, f_requests = [1, 2]\<rparr>"
  by (simp add: full_page_then_422_def PER_PAGE_def)

theorem fetch_422_counterexample:
  "\<not> returns_cache_on_422 (\<lambda>d. Some d) None full_page_then_422
   \<and> fetch_observations (\<lambda>d. Some d) None full_page_then_422
     = Some (Inr \<lparr>returned = replicate 200 (obs 1 ''2024-05-01''),
                   cache_after = Some (replicate 200 (obs 1 ''2024-05-01'')),
                   cache_written = True, start_date = None,
                   pages = \<lparr>f_new_observations = replicate 200 (obs 1 ''2024-05-01''),
                            f_valid_request = False, f_requests = [1, 2]\<rparr>\<rparr>)"
proof -
  have sd: "fetch_start_date (\<lambda>d. Some d) (load_cache None) = Inr None"
    by (simp add: fetch_start_date_def last_date_def load_cache_def)
  have run: "fetch_observations (\<lambda>d. Some d) None full_page_then_422
     = Some (Inr \<lparr>returned = replicate 200 (obs 1 ''2024-05-01''),
                   cache_after = Some (replicate 200 (obs 1 ''2024-05-01'')),
                   cache_written = True, start_date = None,
                   pages = \<lparr>f_new_observations = replicate 200 (obs 1 ''2024-05-01''),
                            f_valid_request = False, f_requests = [1, 2]\<rparr>\<rparr>)"
    unfolding fetch_observations_unfold [OF sd full_page_then_422_pages]
    by (simp add: load_cache_def)
  then show ?thesis
    by (simp add: returns_cache_on_422_def)
qed

lemma fetch_pages_empty_page:
  "\<forall>x \<in> set retries. status_code x \<noteq> 200 \<and> status_code x \<noteq> 422 \<Longrightarrow>
   status_code r = 200 \<Longrightarrow> results r = [] \<Longrightarrow>
   fetch_pages (retries @ r # rest) page new requests =
     Some \<lparr>f_new_observations = new, f_valid_request = True,
           f_requests = requests @ replicate (Suc (length retries)) page\<rparr>"
proof (induction retries arbitrary: requests)
  case Nil
  then show ?case by simp
next
  case (Cons a retries)
  then show ?case
    by (simp add: replicate_app_Cons_same)
qed

text \<open>
  Claim C8, amended. A run that returns and has collected no record at all from the remote
  source returns the cached observations as they were and leaves the cache file as it
  is, unwritten; such a run does return: when the first answer that is not retried is an
  empty page, the run ends there with the cached observations. The cache file is written
  exactly when the run has collected records, whether they are new or not: when all the
  collected records are cached already, the run still returns the cached observations
  as they were, and it writes them to the cache file again.
\<close>

theorem fetch_nothing_new:
  "(fetch_observations next_day cache responses = Some (Inr res) \<longrightarrow>
      (f_new_observations (pages res) = [] \<longrightarrow>
         returned res = load_cache cache \<and> cache_after res = cache \<and> \<not> cache_written res)
      \<and> (cache_written res \<longleftrightarrow> f_new_observations (pages res) \<noteq> [])
      \<and> (f_new_observations (pages res) \<noteq> []
           \<and> (\<forall>ob \<in> set (f_new_observations (pages res)).
                  o_id ob \<in> set (map o_id (load_cache cache))) \<longrightarrow>
         returned res = load_cache cache \<and> cache_after res = Some (load_cache cache)
         \<and> cache_written res))
   \<and> (fetch_start_date next_day (load_cache cache) = Inr d1
        \<and> (\<forall>x \<in> set retries. status_code x \<noteq> 200 \<and> status_code x \<noteq> 422)
        \<and> status_code r = 200 \<and> results r = [] \<longrightarrow>
      fetch_observations next_day cache (retries @ r # rest) =
        Some (Inr \<lparr>returned = load_cache cache, cache_after = cache, cache_written = False,
                    start_date = d1,
                    pages = \<lparr>f_new_observations = [], f_valid_request = True,
                             f_requests = replicate (Suc (length retries)) 1\<rparr>\<rparr>))"
proof -
  have "(f_new_observations (pages res) = [] \<longrightarrow>
            returned res = load_cache cache \<and> cache_after res = cache \<and> \<not> cache_written res)
         \<and> (cache_written res \<longleftrightarrow> f_new_observations (pages res) \<noteq> [])
         \<and> (f_new_observations (pages res) \<noteq> []
              \<and> (\<forall>ob \<in> set (f_new_observations (pages res)).
                     o_id ob \<in> set (map o_id (load_cache cache))) \<longrightarrow>
            returned res = load_cache cache \<and> cache_after res = Some (load_cache cache)
            \<and> cache_written res)"
    if run: "fetch_observations next_day cache responses = Some (Inr res)"
  proof -
    from run obtain d f where "fetch_start_date next_day (load_cache cache) = Inr d"
      and "fetch_pages responses 1 [] [] = Some f"
      by (rule fetch_observations_Inr)
    note eq = fetch_observations_unfold [OF this]
    have none: "f_new_observations (pages res) = [] \<longrightarrow>
            returned res = load_cache cache \<and> cache_after res = cache \<and> \<not> cache_written res"
      using eq run by (auto split: if_splits)
    have iff: "cache_written res \<longleftrightarrow> f_new_observations (pages res) \<noteq> []"
      using eq run by (auto split: if_splits)
    have ret: "returned res = load_cache cache @
           filter (\<lambda>observation. o_id observation \<notin> set (map o_id (load_cache cache)))
                  (f_new_observations (pages res))"
      and aft: "f_new_observations (pages res) \<noteq> [] \<longrightarrow> cache_after res = Some (returned res)"
      using eq run by (auto split: if_splits)
    have "returned res = load_cache cache \<and> cache_after res = Some (load_cache cache)
            \<and> cache_written res"
      if ne: "f_new_observations (pages res) \<noteq> []"
        and old: "\<forall>ob \<in> set (f_new_observations (pages res)).
                    o_id ob \<in> set (map o_id (load_cache cache))"
    proof -
      from old have "filter (\<lambda>observation. o_id observation \<notin> set (map o_id (load_cache cache)))
                  (f_new_observations (pages res)) = []"
        by (simp only: filter_empty_conv) blast
      with ret have "returned res = load_cache cache" by simp
      with aft ne iff show ?thesis by simp
    qed
    with none iff show ?thesis by blast
  qed
  moreover have "fetch_observations next_day cache (retries @ r # rest) =
        Some (Inr \<lparr>returned = load_cache cache, cache_after = cache, cache_written = False,
                    start_date = d1,
                    pages = \<lparr>f_new_observations = [], f_valid_request = True,
                             f_requests = replicate (Suc (length retries)) 1\<rparr>\<rparr>)"
    if "fetch_start_date next_day (load_cache cache) = Inr d1"
      and "\<forall>x \<in> set retries. status_code x \<noteq> 200 \<and> status_code x \<noteq> 422"
      and "status_code r = 200" and "results r = []"
    using fetch_observations_unfold [OF that(1) fetch_pages_empty_page [OF that(2,3,4)]]
    by simp
  ultimately show ?thesis by blast
qed

theorem fetch_nothing_new_witness:
  "fetch_start_date (\<lambda>d. Some ''2024-05-02'') (load_cache (Some [obs 1 ''2024-05-01'']))
     = Inr (Some ''2024-05-02'')
   \<and> list_all (\<lambda>x. status_code x \<noteq> 200 \<and> status_code x \<noteq> 422)
        [\<lparr>status_code = 429, results = []\<rparr>, \<lparr>status_code = 503, results = []\<rparr>]
   \<and> fetch_observations (\<lambda>d. Some ''2024-05-02'') (Some [obs 1 ''2024-05-01''])
        ([\<lparr>status_code = 429, results = []\<rparr>, \<lparr>status_code = 503, results = []\<rparr>]
           @ \<lparr>status_code = 200, results = []\<rparr> # [])
       = Some (Inr \<lparr>returned = [obs 1 ''2024-05-01''],
                     cache_after = Some [obs 1 ''2024-05-01''], cache_written = False,
                     start_date = Some ''2024-05-02'',
                     pages = \<lparr>f_new_observations = [], f_valid_request = True,
                              f_requests = [1, 1, 1]\<rparr>\<rparr>)"
proof -
  let ?retries = "[\<lparr>status_code = 429, results = []\<rparr>, \<lparr>status_code = 503, results = []\<rparr>]"
  have sd: "fetch_start_date (\<lambda>d. Some ''2024-05-02'') (load_cache (Some [obs 1 ''2024-05-01'']))
     = Inr (Some ''2024-05-02'')"
    by (simp add: fetch_start_date_def last_date_def load_cache_def obs_def)
  have rt: "\<forall>x \<in> set ?retries. status_code x \<noteq> 200 \<and> status_code x \<noteq> 422"
    by simp
  have ok: "status_code \<lparr>status_code = 200, results = []\<rparr> = 200
            \<and> results \<lparr>status_code = 200, results = []\<rparr> = []"
    by simp
  from sd rt ok
    conjunct2 [OF fetch_nothing_new [where next_day = "\<lambda>d. Some ''2024-05-02''"
        and cache = "Some [obs 1 ''2024-05-01'']" and ?d1.0 = "Some ''2024-05-02''"
        and retries = ?retries and r = "\<lparr>status_code = 200, results = []\<rparr>"
        and rest = "[]"]]
  have "fetch_observations (\<lambda>d. Some ''2024-05-02'') (Some [obs 1 ''2024-05-01''])
        (?retries @ \<lparr>status_code = 200, results = []\<rparr> # [])
       = Some (Inr \<lparr>returned = load_cache (Some [obs 1 ''2024-05-01'']),
                     cache_after = Some [obs 1 ''2024-05-01''], cache_written = False,
                     start_date = Some ''2024-05-02'',
                     pages = \<lparr>f_new_observations = [], f_valid_request = True,
                              f_requests = replicate (Suc (length ?retries)) 1\<rparr>\<rparr>)"
    by blast
  then show ?thesis
    using sd by (simp add: load_cache_def list_all_iff)
qed

text \<open>
  The claim as stated fails when the remote source returns a record that is cached
  already, as it does for a cache of undated observations, which sends no start date:
  the run returns the cached observations as they were, but it writes the cache file.
\<close>

theorem fetch_nothing_new_counterexample:
  "\<not> unchanged_without_new_records (\<lambda>d. Some d) (Some [undated_obs 1])
        [\<lparr>status_code = 200, results = [undated_obs 1]\<rparr>]
   \<and> fetch_observations (\<lambda>d. Some d) (Some [undated_obs 1])
        [\<lparr>status_code = 200, results = [undated_obs 1]\<rparr>]
     = Some (Inr \<lparr>returned = [undated_obs 1], cache_after = Some [undated_obs 1],
                   cache_written = True, start_date = None,
                   pages = \<lparr>f_new_observations = [undated_obs 1], f_valid_request = True,
                            f_requests = [1]\<rparr>\<rparr>)"
proof -
  have sd: "fetch_start_date (\<lambda>d. Some d) (load_cache (Some [undated_obs 1])) = Inr None"
    by (simp add: fetch_start_date_def last_date_def load_cache_def undated_obs_def)
  have fp: "fetch_pages [\<lparr>status_code = 200, results = [undated_obs 1]\<rparr>] 1 [] [] =
      Some \<lparr>f_new_observations = [undated_obs 1], f_valid_request = True, f_requests = [1]\<rparr>"
    by (simp add: PER_PAGE_def)
  have run: "fetch_observations (\<lambda>d. Some d) (Some [undated_obs 1])
        [\<lparr>status_code = 200, results = [undated_obs 1]\<rparr>]
     = Some (Inr \<lparr>returned = [undated_obs 1], cache_after = Some [undated_obs 1],
                   cache_written = True, start_date = None,
                   pages = \<lparr>f_new_observations = [undated_obs 1], f_valid_request = True,
                            f_requests = [1]\<rparr>\<rparr>)"
    unfolding fetch_observations_unfold [OF sd fp]
    by (simp add: load_cache_def)
  then show ?thesis
    by (simp add: unchanged_without_new_records_def load_cache_def)
qed

text \<open>
  Claim C9, amended. The list returned is the cached observations followed by those
  collected records whose identifier is not among the cached ones, in their order: no
  identifier of the cache gains an occurrence, and when the cached identifiers are
  pairwise distinct and the collected identifiers are pairwise distinct, so are the
  identifiers of the list returned. Records that repeat an identifier within the
  collected records themselves are all kept.
\<close>

theorem fetch_merge_dedup:
  assumes "fetch_observations next_day cache responses = Some (Inr res)"
  shows "returned res = load_cache cache @
           filter (\<lambda>observation. o_id observation \<notin> set (map o_id (load_cache cache)))
                  (f_new_observations (pages res))
         \<and> (\<forall>i \<in> set (map o_id (load_cache cache)).
               count_list (map o_id (returned res)) i = count_list (map o_id (load_cache cache)) i)
         \<and> (distinct (map o_id (load_cache cache)) \<and> distinct (map o_id (f_new_observations (pages res)))
              \<longrightarrow> distinct (map o_id (returned res)))"
proof -
  from assms obtain d1 f where "fetch_start_date next_day (load_cache cache) = Inr d1"
    and "fetch_pages responses 1 [] [] = Some f"
    by (rule fetch_observations_Inr)
  from fetch_observations_unfold [OF this] assms
  have ret: "returned res = load_cache cache @
           filter (\<lambda>observation. o_id observation \<notin> set (map o_id (load_cache cache)))
                  (f_new_observations (pages res))"
    by (auto split: if_splits)
  have cnt: "count_list (map o_id (filter (\<lambda>observation. o_id observation \<notin> A) xs)) i = 0"
    if "i \<in> A" for A and xs :: "observation list" and i
    using that by (induction xs) auto
  have dist: "distinct (map o_id (filter P xs))" if "distinct (map o_id xs)"
    for P and xs :: "observation list"
    using that by (simp add: distinct_map_filter)
  have disj: "set (map o_id (filter (\<lambda>observation. o_id observation \<notin> A) xs)) \<inter> A = {}"
    for A and xs :: "observation list"
    by auto
  have "distinct (map o_id (returned res))"
    if "distinct (map o_id (load_cache cache))"
      and "distinct (map o_id (f_new_observations (pages res)))"
    unfolding ret map_append distinct_append
    using that dist disj by (metis inf_commute)
  moreover have "count_list (map o_id (returned res)) i = count_list (map o_id (load_cache cache)) i"
    if "i \<in> set (map o_id (load_cache cache))" for i
    unfolding ret map_append count_list_append using cnt [OF that] by simp
  ultimately show ?thesis
    using ret by blast
qed

theorem fetch_merge_dedup_witness:
  "fetch_observations (\<lambda>d. Some ''2024-05-02'') (Some [obs 1 ''2024-05-01'', obs 2 ''2024-04-01''])
        [\<lparr>status_code = 200, results = [obs 2 ''2024-04-01'', obs 3 ''2024-05-03'']\<rparr>]
       = Some (Inr \<lparr>returned = [obs 1 ''2024-05-01'', obs 2 ''2024-04-01'', obs 3 ''2024-05-03''],
                     cache_after = Some [obs 1 ''2024-05-01'', obs 2 ''2024-04-01'', obs 3 ''2024-05-03''],
                     cache_written = True,
                     start_date = Some ''2024-05-02'',
                     pages = \<lparr>f_new_observations = [obs 2 ''2024-04-01'', obs 3 ''2024-05-03''],
                              f_valid_request = True, f_requests = [1]\<rparr>\<rparr>)
   \<and> distinct (map o_id [obs 1 ''2024-05-01'', obs 2 ''2024-04-01''])
   \<and> distinct (map o_id [obs 2 ''2024-04-01'', obs 3 ''2024-05-03''])
   \<and> distinct (map o_id [obs 1 ''2024-05-01'', obs 2 ''2024-04-01'', obs 3 ''2024-05-03''])"
proof -
  let ?res = "\<lparr>returned = [obs 1 ''2024-05-01'', obs 2 ''2024-04-01'', obs 3 ''2024-05-03''],
                     cache_after = Some [obs 1 ''2024-05-01'', obs 2 ''2024-04-01'', obs 3 ''2024-05-03''],
                     cache_written = True,
                     start_date = Some ''2024-05-02'',
                     pages = \<lparr>f_new_observations = [obs 2 ''2024-04-01'', obs 3 ''2024-05-03''],
                              f_valid_request = True, f_requests = [1]\<rparr>\<rparr>"
  have run: "fetch_observations (\<lambda>d. Some ''2024-05-02'') (Some [obs 1 ''2024-05-01'', obs 2 ''2024-04-01''])
        [\<lparr>status_code = 200, results = [obs 2 ''2024-04-01'', obs 3 ''2024-05-03'']\<rparr>]
       = Some (Inr ?res)"
    by (simp add: fetch_observations_def load_cache_def fetch_start_date_def last_date_def obs_def PER_PAGE_def
        Let_def)
  have d: "distinct (map o_id [obs 1 ''2024-05-01'', obs 2 ''2024-04-01''])"
    "distinct (map o_id [obs 2 ''2024-04-01'', obs 3 ''2024-05-03''])"
    by (simp_all add: obs_def)
  note imp = conjunct2 [OF conjunct2 [OF fetch_merge_dedup [OF run]]]
  from imp d have "distinct (map o_id (returned ?res))"
    by (simp add: load_cache_def)
  with d run show ?thesis
    by simp
qed

text \<open>
  The claim as stated fails when a collected identifier that is new to the cache comes
  twice: the identifier 1 of the cache is dropped, the identifier 2 is kept twice.
\<close>

theorem fetch_merge_counterexample:
  "\<not> merged_ids_distinct (\<lambda>d. Some ''2024-05-02'') (Some [obs 1 ''2024-05-01''])
        [\<lparr>status_code = 200,
          results = [obs 1 ''2024-05-01'', obs 2 ''2024-05-03'', obs 2 ''2024-05-03'']\<rparr>]
   \<and> map_option (map_sum id (\<lambda>r. map o_id (returned r)))
        (fetch_observations (\<lambda>d. Some ''2024-05-02'') (Some [obs 1 ''2024-05-01''])
           [\<lparr>status_code = 200,
             results = [obs 1 ''2024-05-01'', obs 2 ''2024-05-03'', obs 2 ''2024-05-03'']\<rparr>])
       = Some (Inr [1, 2, 2])"
  by (simp add: merged_ids_distinct_def fetch_observations_def load_cache_def fetch_start_date_def
      last_date_def obs_def PER_PAGE_def Let_def)

subsection \<open>Writing the cache file\<close>

lemma fold_Write:
  "fold apply_op (map Write chunks) (Some text) = Some (text @ concat chunks)"
  by (induction chunks arbitrary: "text") simp_all

text \<open>
  Claim C4, amended. The merged observations are written into the cache file itself,
  with no temporary file and no renaming: before the first step the file has its
  previous content; once the file is opened, the previous content is gone and the file
  holds the pieces written so far; after the last step it holds the whole new content.
\<close>

theorem write_cache_in_place:
  "cache_after_steps 0 chunks content = content
   \<and> cache_after_steps (Suc k) chunks content = Some (concat (take k chunks))
   \<and> cache_after_steps (Suc (length chunks)) chunks content = Some (concat chunks)"
  by (simp add: cache_after_steps_def write_cache_def take_map fold_Write)

text \<open>
  The claim as stated fails: a write that stops right after the file is opened leaves an
  empty cache file, neither the previous content nor the new one.
\<close>

theorem write_cache_counterexample:
  "\<not> atomic_replace (Some ''[1]'') [''['', ''2'', '']'']
   \<and> cache_after_steps 1 [''['', ''2'', '']''] (Some ''[1]'') = Some []"
proof -
  have step: "cache_after_steps 1 [''['', ''2'', '']''] (Some ''[1]'') = Some []"
    by (simp add: cache_after_steps_def write_cache_def)
  have "1 \<in> set [0 ..< Suc (length (write_cache [''['', ''2'', '']'']))]"
    by (simp add: write_cache_def)
  then have "cache_after_steps 1 [''['', ''2'', '']''] (Some ''[1]'')
               \<in> {Some ''[1]'', Some (concat [''['', ''2'', '']''])}"
    if "atomic_replace (Some ''[1]'') [''['', ''2'', '']'']"
    using that unfolding atomic_replace_def by blast
  with step have "\<not> atomic_replace (Some ''[1]'') [''['', ''2'', '']'']"
    by auto
  with step show ?thesis by simp
qed

subsection \<open>The taxon map\<close>

lemma update_entries:
  "x \<in> set (AList.update k v al) \<Longrightarrow> x = (k, v) \<or> x \<in> set al"
  by (induction al) (auto split: if_splits)

lemma record_observation_wf:
  "wf_infos (fst st) \<Longrightarrow> wf_infos (fst (record_observation ob st))"
  unfolding wf_infos_def record_observation_def
  by (auto simp: Let_def distinct_update split: option.splits dest!: update_entries)

lemma fold_record_observation_wf:
  "wf_infos (fst st) \<Longrightarrow> wf_infos (fst (fold record_observation observations st))"
  by (induction observations arbitrary: st) (simp_all add: record_observation_wf)

lemma taxon_maps_wf: "wf_infos (fst (taxon_maps observations))"
  unfolding taxon_maps_def by (rule fold_record_observation_wf) (simp add: wf_infos_def)

lemma record_observation_keys:
  "fst ` set (fst (record_observation ob st)) =
     fst ` set (fst st) \<union> (case o_taxon ob of None \<Rightarrow> {} | Some t \<Rightarrow> {t_id t})"
  by (auto simp: record_observation_def Let_def dom_update split: option.splits)

lemma fold_record_observation_keys:
  "fst ` set (fst (fold record_observation observations st)) =
     fst ` set (fst st)
     \<union> (\<Union>ob \<in> set observations. case o_taxon ob of None \<Rightarrow> {} | Some t \<Rightarrow> {t_id t})"
  by (induction observations arbitrary: st) (auto simp: record_observation_keys)

lemma taxon_maps_keys:
  "fst ` set (fst (taxon_maps observations)) =
     (\<Union>ob \<in> set observations. case o_taxon ob of None \<Rightarrow> {} | Some t \<Rightarrow> {t_id t})"
  by (simp add: taxon_maps_def fold_record_observation_keys)

lemma fold_ancestors:
  "fold (\<lambda>taxon_info ancestor_ids. ancestor_ids \<union> set (i_ancestor_ids taxon_info)) xs A =
     A \<union> (\<Union>x \<in> set xs. set (i_ancestor_ids x))"
  by (induction xs arbitrary: A) auto

lemma ancestor_id_set_eq:
  "ancestor_id_set taxon_id_to_info =
     (\<Union>item \<in> set taxon_id_to_info. set (i_ancestor_ids (snd item)))"
  by (simp add: ancestor_id_set_def fold_ancestors)

lemma leaf_taxa_iff:
  "item \<in> set (leaf_taxa taxon_id_to_info) \<longleftrightarrow>
     item \<in> set taxon_id_to_info \<and> fst item \<notin> ancestor_id_set taxon_id_to_info"
  by (auto simp: leaf_taxa_def)

subsection \<open>The collapse\<close>

lemma find_species_Some:
  "find_species taxon_id_to_info as = Some s \<Longrightarrow> s \<in> set as \<and> is_species taxon_id_to_info s"
  by (induction as) (auto split: if_splits)

lemma find_species_exists:
  "a \<in> set as \<Longrightarrow> is_species taxon_id_to_info a \<Longrightarrow>
     \<exists>s. find_species taxon_id_to_info as = Some s"
  by (induction as) auto

lemma find_species_key:
  "find_species taxon_id_to_info as = Some s \<Longrightarrow>
     \<exists>parent. map_of taxon_id_to_info s = Some parent \<and> i_rank parent = Some ''species''"
  by (drule find_species_Some) (auto simp: is_species_def split: option.splits)

lemma collapse_target_Some:
  assumes "collapse_target taxon_id_to_info info = Some s"
  shows "s \<noteq> 0" and "s \<in> set (i_ancestor_ids info)" and "is_species taxon_id_to_info s"
    and "map lower (case i_rank info of None \<Rightarrow> [] | Some r \<Rightarrow> r) \<in> INFRARANKS"
    and "find_species taxon_id_to_info (rev (i_ancestor_ids info)) = Some s"
  using assms find_species_Some [of taxon_id_to_info "rev (i_ancestor_ids info)" s]
  by (auto simp: collapse_target_def species_id_of_def Let_def split: option.splits if_splits)

lemma collapse_taxon_eq:
  assumes "wf_infos taxon_id_to_info"
  shows "collapse_taxon taxon_id_to_info item (coll, ds) =
     (case collapse_target taxon_id_to_info (snd item) of
        None \<Rightarrow> (AList.update (fst item) (snd item) coll, ds)
      | Some s \<Rightarrow>
          (AList.update s (the (map_of taxon_id_to_info s)) coll,
           ds(s \<mapsto> min (dict_get ds s SENTINEL) (dict_get ds (fst item) SENTINEL))))"
proof (cases "collapse_target taxon_id_to_info (snd item)")
  case None
  then show ?thesis
    by (auto simp: collapse_taxon_def collapse_target_def Let_def split: option.splits if_splits)
next
  case (Some s)
  from collapse_target_Some [OF Some]
  have nz: "s \<noteq> 0" and sp: "is_species taxon_id_to_info s" by auto
  from sp obtain parent where p: "map_of taxon_id_to_info s = Some parent"
    by (auto simp: is_species_def split: option.splits)
  then have "(s, parent) \<in> set taxon_id_to_info" by (rule map_of_SomeD)
  with assms have "i_id parent = s" by (auto simp: wf_infos_def)
  with Some p nz show ?thesis
    by (auto simp: collapse_taxon_def collapse_target_def Let_def split: option.splits if_splits)
qed

lemma collapse_taxon_keys:
  assumes "wf_infos taxon_id_to_info"
  shows "fst ` set (fst (collapse_taxon taxon_id_to_info item st)) =
           insert (out_key taxon_id_to_info item) (fst ` set (fst st))"
  using collapse_taxon_eq [OF assms, of item "fst st" "snd st"]
  by (auto simp: out_key_def dom_update split: option.splits)

lemma fold_collapse_keys:
  assumes "wf_infos taxon_id_to_info"
  shows "fst ` set (fst (fold (collapse_taxon taxon_id_to_info) items st)) =
           fst ` set (fst st) \<union> out_key taxon_id_to_info ` set items"
  by (induction items arbitrary: st) (auto simp: collapse_taxon_keys [OF assms])

lemma collapse_taxon_distinct:
  assumes "wf_infos taxon_id_to_info" and "distinct (map fst (fst st))"
  shows "distinct (map fst (fst (collapse_taxon taxon_id_to_info item st)))"
  using collapse_taxon_eq [OF assms(1), of item "fst st" "snd st"] assms(2)
  by (auto simp: distinct_update split: option.splits)

lemma fold_collapse_distinct:
  assumes "wf_infos taxon_id_to_info"
  shows "distinct (map fst (fst st)) \<Longrightarrow>
         distinct (map fst (fst (fold (collapse_taxon taxon_id_to_info) items st)))"
  by (induction items arbitrary: st) (simp_all add: collapse_taxon_distinct [OF assms])

lemma collapse_taxon_entries:
  assumes "wf_infos taxon_id_to_info" and "item \<in> set taxon_id_to_info"
    and "x \<in> set (fst (collapse_taxon taxon_id_to_info item st))"
  shows "x \<in> set (fst st) \<or> x \<in> set taxon_id_to_info"
proof (cases "collapse_target taxon_id_to_info (snd item)")
  case None
  with collapse_taxon_eq [OF assms(1), of item "fst st" "snd st"] assms(2,3)
  show ?thesis by (auto dest!: update_entries)
next
  case (Some s)
  from collapse_target_Some(3) [OF Some]
  obtain parent where p: "map_of taxon_id_to_info s = Some parent"
    by (auto simp: is_species_def split: option.splits)
  then have "(s, parent) \<in> set taxon_id_to_info" by (rule map_of_SomeD)
  with Some p collapse_taxon_eq [OF assms(1), of item "fst st" "snd st"] assms(3)
  show ?thesis by (auto dest!: update_entries)
qed

lemma fold_collapse_entries:
  assumes "wf_infos taxon_id_to_info"
  shows "set items \<subseteq> set taxon_id_to_info \<Longrightarrow>
         x \<in> set (fst (fold (collapse_taxon taxon_id_to_info) items st)) \<Longrightarrow>
         x \<in> set (fst st) \<or> x \<in> set taxon_id_to_info"
proof (induction items arbitrary: st)
  case Nil
  then show ?case by simp
next
  case (Cons item items)
  from Cons.prems have "x \<in> set (fst (collapse_taxon taxon_id_to_info item st))
                        \<or> x \<in> set taxon_id_to_info"
    using Cons.IH [of "collapse_taxon taxon_id_to_info item st"] by simp
  with Cons.prems(1) collapse_taxon_entries [OF assms, of item x st]
  show ?case by auto
qed

lemma final_leaf_taxa_keys:
  "fst ` set (final_leaf_taxa observations) =
     out_key (fst (taxon_maps observations)) ` set (leaf_taxa (fst (taxon_maps observations)))"
  by (simp add: final_leaf_taxa_def reduce_def collapse_def split_beta
      fold_collapse_keys [OF taxon_maps_wf])

lemma final_leaf_taxa_distinct: "distinct (map fst (final_leaf_taxa observations))"
  by (simp add: final_leaf_taxa_def reduce_def collapse_def split_beta
      fold_collapse_distinct [OF taxon_maps_wf])

lemma final_leaf_taxa_entries:
  "x \<in> set (final_leaf_taxa observations) \<Longrightarrow> x \<in> set (fst (taxon_maps observations))"
  using fold_collapse_entries [OF taxon_maps_wf, of "leaf_taxa (fst (taxon_maps observations))"
      observations x "([], snd (taxon_maps observations))"]
  by (auto simp: final_leaf_taxa_def reduce_def collapse_def split_beta leaf_taxa_def)

lemma final_leaf_taxa_map_of:
  assumes "k \<in> fst ` set (final_leaf_taxa observations)"
  shows "map_of (final_leaf_taxa observations) k = map_of (fst (taxon_maps observations)) k"
proof -
  from assms obtain v where v: "(k, v) \<in> set (final_leaf_taxa observations)" by auto
  then have "(k, v) \<in> set (fst (taxon_maps observations))"
    by (rule final_leaf_taxa_entries)
  moreover have "distinct (map fst (fst (taxon_maps observations)))"
    using taxon_maps_wf by (simp add: wf_infos_def)
  ultimately show ?thesis
    using v final_leaf_taxa_distinct by simp
qed

lemma collapse_target_not_leaf:
  assumes "item \<in> set (leaf_taxa taxon_id_to_info)"
    and "collapse_target taxon_id_to_info (snd item) = Some s"
  shows "s \<in> ancestor_id_set taxon_id_to_info"
    and "s \<notin> fst ` set (leaf_taxa taxon_id_to_info)"
proof -
  from assms(1) have "item \<in> set taxon_id_to_info" by (simp add: leaf_taxa_iff)
  with collapse_target_Some(2) [OF assms(2)]
  show a: "s \<in> ancestor_id_set taxon_id_to_info"
    by (auto simp: ancestor_id_set_eq)
  then show "s \<notin> fst ` set (leaf_taxa taxon_id_to_info)"
    by (auto simp: leaf_taxa_iff)
qed

lemma count_list_distinct: "distinct xs \<Longrightarrow> x \<in> set xs \<Longrightarrow> count_list xs x = 1"
  by (induction xs) auto

text \<open>
  Claim C2, amended. Every identifier of the final leaf taxa is of one of two kinds.
  Either it is a leaf candidate, and then it occurs in no list of ancestors of the taxon
  map (the list of a taxon is that of its last observation, its own identifier removed).
  Or it is the species into which an infra-ranked leaf candidate was collapsed: it has
  the rank \<open>species\<close>, it is the nearest such ancestor of that candidate, and so it does
  occur in the ancestors of that candidate.
\<close>

theorem final_leaf_ids:
  assumes "taxon_id \<in> fst ` set (final_leaf_taxa observations)"
  shows "(taxon_id \<in> fst ` set (leaf_taxa (fst (taxon_maps observations)))
          \<and> (\<forall>item \<in> set (fst (taxon_maps observations)).
                taxon_id \<notin> set (i_ancestor_ids (snd item))))
       \<or> (\<exists>item \<in> set (leaf_taxa (fst (taxon_maps observations))).
             map lower (case i_rank (snd item) of None \<Rightarrow> [] | Some r \<Rightarrow> r) \<in> INFRARANKS
             \<and> find_species (fst (taxon_maps observations)) (rev (i_ancestor_ids (snd item)))
                 = Some taxon_id
             \<and> taxon_id \<in> set (i_ancestor_ids (snd item))
             \<and> is_species (fst (taxon_maps observations)) taxon_id)"
proof -
  let ?infos = "fst (taxon_maps observations)"
  from assms obtain item where item: "item \<in> set (leaf_taxa ?infos)"
    and key: "taxon_id = out_key ?infos item"
    by (auto simp: final_leaf_taxa_keys)
  show ?thesis
  proof (cases "collapse_target ?infos (snd item)")
    case None
    with key have "taxon_id = fst item" by (simp add: out_key_def)
    with item have "taxon_id \<in> fst ` set (leaf_taxa ?infos)"
      and "taxon_id \<notin> ancestor_id_set ?infos"
      by (auto simp: leaf_taxa_iff)
    then show ?thesis by (auto simp: ancestor_id_set_eq)
  next
    case (Some s)
    with key have "taxon_id = s" by (simp add: out_key_def)
    with collapse_target_Some [OF Some] item show ?thesis by blast
  qed
qed

theorem final_leaf_ids_witness:
  "2 \<in> fst ` set (final_leaf_taxa example_observations)
   \<and> 2 \<notin> fst ` set (leaf_taxa (fst (taxon_maps example_observations)))
   \<and> (\<exists>item \<in> set (leaf_taxa (fst (taxon_maps example_observations))).
         map lower (case i_rank (snd item) of None \<Rightarrow> [] | Some r \<Rightarrow> r) \<in> INFRARANKS
         \<and> find_species (fst (taxon_maps example_observations)) (rev (i_ancestor_ids (snd item)))
             = Some 2
         \<and> 2 \<in> set (i_ancestor_ids (snd item))
         \<and> is_species (fst (taxon_maps example_observations)) 2)"
proof -
  have h: "2 \<in> fst ` set (final_leaf_taxa example_observations)"
    unfolding example_observations_def by code_simp
  have n: "2 \<notin> fst ` set (leaf_taxa (fst (taxon_maps example_observations)))"
    unfolding example_observations_def by code_simp
  from final_leaf_ids [OF h] n h show ?thesis by blast
qed

text \<open>
  The claim as stated fails on the example of the specification: the species 2 is the
  final leaf taxon, and it is an ancestor of the observed subspecies 10.
\<close>

theorem leaf_not_ancestor_counterexample:
  "\<not> leaf_not_ancestor example_observations"
  unfolding example_observations_def by code_simp

text \<open>
  Claim C6. Let a leaf candidate have an infra-specific rank, whatever the case of its
  letters, and an ancestor that is an observed taxon of rank \<open>species\<close>. Then the search
  finds a species \<open>s\<close> among its ancestors, the nearest one, which is that ancestor when
  the candidate has one species among its ancestors; the final leaf taxa hold \<open>s\<close>
  exactly once, with the entry of the species in the taxon map, however many candidates
  collapse into it; and they do not hold the candidate. The identifiers are positive
  here: \<open>if species_id:\<close> would take a species with the identifier 0 for none.
\<close>

theorem infra_rank_collapses_to_species:
  assumes pos: "positive_ids observations"
    and leaf: "item \<in> set (leaf_taxa (fst (taxon_maps observations)))"
    and infra: "map lower (case i_rank (snd item) of None \<Rightarrow> [] | Some r \<Rightarrow> r) \<in> INFRARANKS"
    and anc: "a \<in> set (i_ancestor_ids (snd item))"
    and sp: "is_species (fst (taxon_maps observations)) a"
  shows "\<exists>s. find_species (fst (taxon_maps observations)) (rev (i_ancestor_ids (snd item))) = Some s
           \<and> s \<in> set (i_ancestor_ids (snd item))
           \<and> is_species (fst (taxon_maps observations)) s
           \<and> count_list (map fst (final_leaf_taxa observations)) s = 1
           \<and> map_of (final_leaf_taxa observations) s = map_of (fst (taxon_maps observations)) s
           \<and> fst item \<notin> fst ` set (final_leaf_taxa observations)
           \<and> ((\<forall>b \<in> set (i_ancestor_ids (snd item)).
                  is_species (fst (taxon_maps observations)) b \<longrightarrow> b = a) \<longrightarrow> s = a)"
proof -
  let ?infos = "fst (taxon_maps observations)"
  from anc sp obtain s where fs: "find_species ?infos (rev (i_ancestor_ids (snd item))) = Some s"
    using find_species_exists [of a "rev (i_ancestor_ids (snd item))" ?infos] by auto
  from find_species_Some [OF fs]
  have s_anc: "s \<in> set (i_ancestor_ids (snd item))" and s_sp: "is_species ?infos s"
    by auto
  from s_sp obtain parent where "map_of ?infos s = Some parent"
    by (auto simp: is_species_def split: option.splits)
  then have "s \<in> fst ` set ?infos"
    by (metis map_of_SomeD fst_conv image_eqI)
  with pos have "0 < s"
    by (auto simp: taxon_maps_keys positive_ids_def split: option.splits)
  with fs infra have tgt: "collapse_target ?infos (snd item) = Some s"
    by (simp add: collapse_target_def species_id_of_def)
  then have "out_key ?infos item = s" by (simp add: out_key_def)
  with leaf have s_in: "s \<in> fst ` set (final_leaf_taxa observations)"
    unfolding final_leaf_taxa_keys by blast
  then have cnt: "count_list (map fst (final_leaf_taxa observations)) s = 1"
    using final_leaf_taxa_distinct by (simp add: count_list_distinct)
  have out: "fst item \<notin> fst ` set (final_leaf_taxa observations)"
  proof
    assume "fst item \<in> fst ` set (final_leaf_taxa observations)"
    then obtain item' where item': "item' \<in> set (leaf_taxa ?infos)"
      and key: "fst item = out_key ?infos item'"
      by (auto simp: final_leaf_taxa_keys)
    show False
    proof (cases "collapse_target ?infos (snd item')")
      case None
      with key have "fst item = fst item'" by (simp add: out_key_def)
      moreover from leaf item' have "item \<in> set ?infos" "item' \<in> set ?infos"
        by (simp_all add: leaf_taxa_iff)
      moreover have "distinct (map fst ?infos)"
        using taxon_maps_wf by (simp add: wf_infos_def)
      ultimately have "item = item'"
        by (metis eq_key_imp_eq_value prod.collapse)
      with None tgt show False by simp
    next
      case (Some s')
      with key have "fst item = s'" by (simp add: out_key_def)
      with collapse_target_not_leaf(2) [OF item' Some] leaf show False by auto
    qed
  qed
  from fs s_anc s_sp cnt final_leaf_taxa_map_of [OF s_in] out show ?thesis by blast
qed

theorem infra_rank_collapses_to_species_witness:
  "positive_ids two_infra_observations
   \<and> (10, \<lparr>i_id = 10, i_rank = Some ''subspecies'', i_ancestor_ids = [1, 2],
            i_name = Some ''Foo bar baz'', i_common_name = Some []\<rparr>)
       \<in> set (leaf_taxa (fst (taxon_maps two_infra_observations)))
   \<and> is_species (fst (taxon_maps two_infra_observations)) 2
   \<and> find_species (fst (taxon_maps two_infra_observations)) (rev [1, 2]) = Some 2
   \<and> map fst (final_leaf_taxa two_infra_observations) = [2]
   \<and> count_list (map fst (final_leaf_taxa two_infra_observations)) 2 = 1
   \<and> 10 \<notin> fst ` set (final_leaf_taxa two_infra_observations)"
proof -
  let ?item = "(10::int, \<lparr>i_id = 10, i_rank = Some ''subspecies'', i_ancestor_ids = [1, 2],
            i_name = Some ''Foo bar baz'', i_common_name = Some []\<rparr>)"
  have pos: "positive_ids two_infra_observations"
    unfolding two_infra_observations_def by code_simp
  have leaf: "?item \<in> set (leaf_taxa (fst (taxon_maps two_infra_observations)))"
    unfolding two_infra_observations_def by code_simp
  have infra: "map lower (case i_rank (snd ?item) of None \<Rightarrow> [] | Some r \<Rightarrow> r) \<in> INFRARANKS"
    by code_simp
  have anc: "2 \<in> set (i_ancestor_ids (snd ?item))"
    by simp
  have sp: "is_species (fst (taxon_maps two_infra_observations)) 2"
    unfolding two_infra_observations_def by code_simp
  have fs: "find_species (fst (taxon_maps two_infra_observations)) (rev [1, 2]) = Some 2"
    unfolding two_infra_observations_def by code_simp
  have keys: "map fst (final_leaf_taxa two_infra_observations) = [2]"
    unfolding two_infra_observations_def by code_simp
  from infra_rank_collapses_to_species [OF pos leaf infra anc sp] fs
  have "count_list (map fst (final_leaf_taxa two_infra_observations)) 2 = 1
        \<and> 10 \<notin> fst ` set (final_leaf_taxa two_infra_observations)"
    by auto
  with pos leaf sp fs keys show ?thesis by blast
qed

subsection \<open>The first dates\<close>

lemma record_observation_dates:
  "snd (record_observation ob st) k =
     (case observation_date ob k of
        None \<Rightarrow> snd st k
      | Some d \<Rightarrow> Some (case snd st k of None \<Rightarrow> d | Some d0 \<Rightarrow> min d0 d))"
  by (auto simp: record_observation_def observation_date_def dict_get_def Let_def
      split: option.splits)

lemma fold_record_observation_dates:
  "snd (fold record_observation observations st) k =
     fold (\<lambda>d x. Some (case x of None \<Rightarrow> d | Some d0 \<Rightarrow> min d0 d))
          (observed_dates observations k) (snd st k)"
proof (induction observations arbitrary: st)
  case Nil
  then show ?case by (simp add: observed_dates_def map_filter_simps)
next
  case (Cons ob observations)
  show ?case
    by (simp add: Cons.IH record_observation_dates observed_dates_def map_filter_simps
        split: option.splits)
qed

lemma fold_min_dates_Some:
  "fold (\<lambda>d x. Some (case x of None \<Rightarrow> d | Some d0 \<Rightarrow> min d0 d)) ds (Some (a::string)) =
     Some (fold min ds a)"
  by (induction ds arbitrary: a) (simp_all add: min.commute)

lemma taxon_maps_dates:
  "snd (taxon_maps observations) k =
     (if observed_dates observations k = [] then None
      else Some (Min (set (observed_dates observations k))))"
proof (cases "observed_dates observations k")
  case Nil
  then show ?thesis
    by (simp add: taxon_maps_def fold_record_observation_dates)
next
  case (Cons d ds)
  then show ?thesis
    by (simp add: taxon_maps_def fold_record_observation_dates fold_min_dates_Some
        Min.set_eq_fold del: set_simps)
qed

lemma fold_collapse_dates:
  assumes wf: "wf_infos taxon_id_to_info"
  shows "\<forall>item \<in> set items. \<forall>item' \<in> set items.
            collapse_target taxon_id_to_info (snd item) \<noteq> Some (fst item') \<Longrightarrow>
         snd (fold (collapse_taxon taxon_id_to_info) items (coll, ds)) p =
           (let cs = map fst (filter (\<lambda>item. collapse_target taxon_id_to_info (snd item) = Some p)
                                     items)
            in if cs = [] then ds p
               else Some (fold min (map (\<lambda>c. dict_get ds c SENTINEL) cs)
                               (dict_get ds p SENTINEL)))"
proof (induction items arbitrary: coll ds)
  case Nil
  then show ?case by simp
next
  case (Cons item items)
  let ?cs = "map fst (filter (\<lambda>item. collapse_target taxon_id_to_info (snd item) = Some p) items)"
  from Cons.prems
  have rest: "\<forall>item \<in> set items. \<forall>item' \<in> set items.
                collapse_target taxon_id_to_info (snd item) \<noteq> Some (fst item')"
    by simp
  show ?case
  proof (cases "collapse_target taxon_id_to_info (snd item)")
    case None
    then show ?thesis
      using Cons.IH [OF rest] by (simp add: collapse_taxon_eq [OF wf])
  next
    case (Some s)
    let ?ds = "ds(s \<mapsto> min (dict_get ds s SENTINEL) (dict_get ds (fst item) SENTINEL))"
    have step: "snd (fold (collapse_taxon taxon_id_to_info) (item # items) (coll, ds)) p =
        (if ?cs = [] then ?ds p
         else Some (fold min (map (\<lambda>c. dict_get ?ds c SENTINEL) ?cs) (dict_get ?ds p SENTINEL)))"
      using Cons.IH [OF rest] Some by (simp add: collapse_taxon_eq [OF wf] Let_def)
    have keep: "dict_get ?ds c SENTINEL = dict_get ds c SENTINEL" if "c \<in> set ?cs" for c
    proof -
      from that obtain item' where "item' \<in> set items" "c = fst item'" by auto
      with Cons.prems Some have "s \<noteq> c" by auto
      then show ?thesis by (simp add: dict_get_def)
    qed
    then have maps: "map (\<lambda>c. dict_get ?ds c SENTINEL) ?cs = map (\<lambda>c. dict_get ds c SENTINEL) ?cs"
      by simp
    show ?thesis
    proof (cases "p = s")
      case True
      then show ?thesis
        unfolding step maps using Some
        by (simp add: dict_get_def min.commute)
    next
      case False
      then show ?thesis
        unfolding step maps using Some
        by (simp add: dict_get_def)
    qed
  qed
qed

lemma leaf_targets_not_leaf:
  "\<forall>item \<in> set (leaf_taxa taxon_id_to_info). \<forall>item' \<in> set (leaf_taxa taxon_id_to_info).
     collapse_target taxon_id_to_info (snd item) \<noteq> Some (fst item')"
  using collapse_target_not_leaf(2) by blast

lemma first_observed_collapsed:
  assumes "collapsed_into observations s \<noteq> []"
  shows "first_observed observations s =
     Some (fold min (map (\<lambda>c. dict_get (snd (taxon_maps observations)) c SENTINEL)
                         (collapsed_into observations s))
                    (dict_get (snd (taxon_maps observations)) s SENTINEL))"
  using assms
    fold_collapse_dates [OF taxon_maps_wf leaf_targets_not_leaf,
      of observations "[]" "snd (taxon_maps observations)" s]
  by (simp add: first_observed_def reduce_def collapse_def split_beta collapsed_into_def Let_def)

lemma dict_get_taxon_maps:
  assumes "\<forall>d \<in> set (observed_dates observations k). d \<le> SENTINEL"
  shows "dict_get (snd (taxon_maps observations)) k SENTINEL =
           Min (insert SENTINEL (set (observed_dates observations k)))"
proof (cases "observed_dates observations k = []")
  case True
  then show ?thesis by (simp add: dict_get_def taxon_maps_dates)
next
  case False
  with assms have "Min (set (observed_dates observations k)) \<le> SENTINEL"
    by (simp add: Min_le_iff)
  moreover from False
  have "Min (insert SENTINEL (set (observed_dates observations k))) =
          min SENTINEL (Min (set (observed_dates observations k)))"
    by (intro Min_insert) simp_all
  ultimately show ?thesis
    using False by (simp only: dict_get_def taxon_maps_dates if_False option.case min_absorb2)
qed

lemma fold_min_Min:
  fixes S :: string
  assumes "finite B"
  shows "fold min (map (\<lambda>c. Min (insert S (set (L c)))) cs) (Min (insert S B)) =
           Min (insert S (B \<union> (\<Union>c \<in> set cs. set (L c))))"
  using assms
proof (induction cs arbitrary: B)
  case Nil
  then show ?case by simp
next
  case (Cons c cs)
  have "min (Min (insert S (set (L c)))) (Min (insert S B)) = Min (insert S (set (L c)) \<union> insert S B)"
    using Cons.prems by (subst Min_Un) simp_all
  also have "insert S (set (L c)) \<union> insert S B = insert S (B \<union> set (L c))"
    by auto
  finally show ?case
    using Cons.IH [of "B \<union> set (L c)"] Cons.prems
    by (simp add: Un_assoc)
qed

text \<open>
  Claim C7. For a species into which at least one leaf candidate is collapsed, the first
  date recorded after the collapse is the least of the dates of its own observations and
  of the observations of the candidates collapsed into it; observations without date
  contribute nothing. When none of these observations has a date, the date recorded is
  the sentinel \<open>9999-99-99\<close>. The dates are dates in ISO form, none of which is above
  the sentinel.
\<close>

theorem collapsed_species_first_date:
  assumes coll: "collapsed_into observations s \<noteq> []"
    and iso: "\<forall>d \<in> set (collapsed_dates observations s). d \<le> SENTINEL"
  shows "first_observed observations s =
           Some (if collapsed_dates observations s = [] then SENTINEL
                 else Min (set (collapsed_dates observations s)))"
proof -
  let ?ds = "snd (taxon_maps observations)"
  let ?cs = "collapsed_into observations s"
  let ?L = "observed_dates observations"
  let ?D = "set (collapsed_dates observations s)"
  have D: "?D = set (?L s) \<union> (\<Union>c \<in> set ?cs. set (?L c))"
    by (simp add: collapsed_dates_def)
  from iso have own: "\<forall>d \<in> set (?L s). d \<le> SENTINEL"
    and sub: "\<forall>c \<in> set ?cs. \<forall>d \<in> set (?L c). d \<le> SENTINEL"
    by (auto simp: collapsed_dates_def)
  have "map (\<lambda>c. dict_get ?ds c SENTINEL) ?cs = map (\<lambda>c. Min (insert SENTINEL (set (?L c)))) ?cs"
    using sub by (simp add: dict_get_taxon_maps)
  with first_observed_collapsed [OF coll] dict_get_taxon_maps [OF own]
  have "first_observed observations s =
      Some (fold min (map (\<lambda>c. Min (insert SENTINEL (set (?L c)))) ?cs)
                     (Min (insert SENTINEL (set (?L s)))))"
    by simp
  also have "\<dots> = Some (Min (insert SENTINEL ?D))"
    by (simp add: fold_min_Min D)
  also have "Min (insert SENTINEL ?D) =
      (if collapsed_dates observations s = [] then SENTINEL else Min ?D)"
  proof (cases "collapsed_dates observations s = []")
    case True
    then show ?thesis by simp
  next
    case False
    then have "Min ?D \<le> SENTINEL"
      using iso by (simp add: Min_le_iff)
    moreover from False have "Min (insert SENTINEL ?D) = min SENTINEL (Min ?D)"
      by (intro Min_insert) simp_all
    ultimately show ?thesis
      using False by (simp only: if_False min_absorb2)
  qed
  finally show ?thesis .
qed

theorem collapsed_species_first_date_witness:
  "collapsed_into two_infra_observations 2 = [10, 11]
   \<and> collapsed_dates two_infra_observations 2 = [''2023-03-01'', ''2023-02-01'', ''2023-01-15'']
   \<and> list_all (\<lambda>d. d \<le> SENTINEL) (collapsed_dates two_infra_observations 2)
   \<and> first_observed two_infra_observations 2 = Some ''2023-01-15''"
proof -
  have c: "collapsed_into two_infra_observations 2 = [10, 11]"
    unfolding two_infra_observations_def by code_simp
  have d: "collapsed_dates two_infra_observations 2 = [''2023-03-01'', ''2023-02-01'', ''2023-01-15'']"
    unfolding two_infra_observations_def by code_simp
  have iso: "\<forall>d \<in> set (collapsed_dates two_infra_observations 2). d \<le> SENTINEL"
    unfolding d by (simp add: SENTINEL_def)
  have ne: "collapsed_into two_infra_observations 2 \<noteq> []"
    unfolding c by simp
  have m: "Min (set [''2023-03-01'', ''2023-02-01'', ''2023-01-15'']) = ''2023-01-15''"
    by code_simp
  from collapsed_species_first_date [OF ne iso]
  have "first_observed two_infra_observations 2 = Some ''2023-01-15''"
    unfolding d m by simp
  with c d iso show ?thesis
    by (simp add: list_all_iff)
qed

end
